theory Spec2Isabelle
  imports Main "HOL-Library.Sublist"
begin

section \<open>Python strings and the digit class of the regular expressions\<close>

text \<open>
  A Python \<open>str\<close> is a sequence of Unicode code points, and \<open>len\<close> counts code points.
  The script handles Arabic text, so a string is modelled as the list of its code points.
  \<open>ascii\<close> turns an ASCII literal into such a list.
\<close>

type_synonym pystr = "nat list"

definition ascii :: "string \<Rightarrow> pystr" where
  "ascii s = map of_char s"

text \<open>
  Both regular expressions of the script are \<open>str\<close> patterns, where \<open>\d\<close> matches every
  character of the Unicode category Nd (decimal digit), not only \<open>0\<close> to \<open>9\<close>. The table
  is the one of Unicode 14.0 (CPython 3.11): 61 blocks of ten digits and the block of
  fifty mathematical digits. \<open>ascii_digit\<close> is the class \<open>[0-9]\<close> the specification
  speaks of; it is the first block of the table.
\<close>

definition nd_ranges :: "(nat \<times> nat) list" where
  "nd_ranges =
    [(48, 57), (1632, 1641), (1776, 1785), (1984, 1993), (2406, 2415), (2534, 2543),
     (2662, 2671), (2790, 2799), (2918, 2927), (3046, 3055), (3174, 3183), (3302, 3311),
     (3430, 3439), (3558, 3567), (3664, 3673), (3792, 3801), (3872, 3881), (4160, 4169),
     (4240, 4249), (6112, 6121), (6160, 6169), (6470, 6479), (6608, 6617), (6784, 6793),
     (6800, 6809), (6992, 7001), (7088, 7097), (7232, 7241), (7248, 7257), (42528, 42537),
     (43216, 43225), (43264, 43273), (43472, 43481), (43504, 43513), (43600, 43609),
     (44016, 44025), (65296, 65305), (66720, 66729), (68912, 68921), (69734, 69743),
     (69872, 69881), (69942, 69951), (70096, 70105), (70384, 70393), (70736, 70745),
     (70864, 70873), (71248, 71257), (71360, 71369), (71472, 71481), (71904, 71913),
     (72016, 72025), (72784, 72793), (73040, 73049), (73120, 73129), (92768, 92777),
     (92864, 92873), (93008, 93017), (120782, 120831), (123200, 123209), (123632, 123641),
     (125264, 125273), (130032, 130041)]"

definition py_digit :: "nat \<Rightarrow> bool" where
  "py_digit c = list_ex (\<lambda>(lo, hi). lo \<le> c \<and> c \<le> hi) nd_ranges"

definition ascii_digit :: "nat \<Rightarrow> bool" where
  "ascii_digit c = (48 \<le> c \<and> c \<le> 57)"

section \<open>The validator\<close>

text \<open>
  \<open>re.sub(r'[^\d]', '', phone)\<close> deletes every character that \<open>\d\<close> does not match and
  keeps the others in their order.
\<close>

definition re_sub_non_digits :: "pystr \<Rightarrow> pystr" where
  "re_sub_non_digits phone = filter py_digit phone"

definition valid_prefixes :: "pystr list" where
  "valid_prefixes = [ascii ''010'', ascii ''011'', ascii ''012'', ascii ''015'']"

text \<open>\<open>phone.startswith(p)\<close> is \<open>prefix p phone\<close>; \<open>any\<close> over the list is \<open>list_ex\<close>.\<close>

definition is_valid_egyptian_mobile :: "pystr \<Rightarrow> bool" where
  "is_valid_egyptian_mobile phone =
     (let phone = re_sub_non_digits phone in
      if length phone \<noteq> 11 then False
      else list_ex (\<lambda>p. prefix p phone) valid_prefixes)"

section \<open>The scan for eleven digits\<close>

text \<open>
  \<open>re.findall(r'\d{11}', phone)\<close> returns the non-overlapping matches from left to right:
  at each position it tries to match eleven digits; after a match it goes on behind the
  match, otherwise one character further.
\<close>

fun re_findall_d11 :: "pystr \<Rightarrow> pystr list" where
  "re_findall_d11 [] = []"
| "re_findall_d11 (c # cs) =
     (if 11 \<le> length (c # cs) \<and> list_all py_digit (take 11 (c # cs))
      then take 11 (c # cs) # re_findall_d11 (drop 11 (c # cs))
      else re_findall_d11 cs)"

section \<open>The loaded document\<close>

text \<open>
  \<open>json.load\<close> gives \<open>None\<close>, a bool, an int, a float, a str, a list or a dict with str
  keys. The script looks at a float only through \<open>str\<close>, so a float is carried as the
  text of its literal. A dict is the list of its items.
\<close>

datatype json =
    JNull
  | JBool bool
  | JInt int
  | JFloat pystr
  | JStr pystr
  | JList "json list"
  | JDict "(pystr \<times> json) list"

datatype exc =
  FileNotFoundError | JSONDecodeError | TypeError | KeyError | AttributeError | UnicodeEncodeError

text \<open>\<open>sub in s\<close> on two strings: \<open>sub\<close> occurs in \<open>s\<close> as a contiguous piece.\<close>

fun contains :: "pystr \<Rightarrow> pystr \<Rightarrow> bool" where
  "contains sub [] = (sub = [])"
| "contains sub (c # cs) = (prefix sub (c # cs) \<or> contains sub cs)"

text \<open>
  \<open>k in v\<close> for a str \<open>k\<close>: a key test on a dict, a membership test on a list, a substring
  test on a str, and a TypeError on \<open>None\<close>, a bool and a number.
\<close>

fun py_in :: "pystr \<Rightarrow> json \<Rightarrow> exc + bool" where
  "py_in k (JDict items) = Inr (map_of items k \<noteq> None)"
| "py_in k (JList xs) = Inr (JStr k \<in> set xs)"
| "py_in k (JStr s) = Inr (contains k s)"
| "py_in k v = Inl TypeError"

text \<open>\<open>v[k]\<close> for a str \<open>k\<close>: only a dict can be indexed by a str.\<close>

fun py_getitem :: "json \<Rightarrow> pystr \<Rightarrow> exc + json" where
  "py_getitem (JDict items) k = (case map_of items k of None \<Rightarrow> Inl KeyError | Some v \<Rightarrow> Inr v)"
| "py_getitem v k = Inl TypeError"

text \<open>\<open>v.get(k, d)\<close>: only a dict has the method.\<close>

fun py_get :: "json \<Rightarrow> pystr \<Rightarrow> json \<Rightarrow> exc + json" where
  "py_get (JDict items) k d = Inr (case map_of items k of None \<Rightarrow> d | Some v \<Rightarrow> v)"
| "py_get v k d = Inl AttributeError"

fun isinstance_list :: "json \<Rightarrow> bool" where
  "isinstance_list (JList xs) = True"
| "isinstance_list v = False"

text \<open>
  \<open>str(v)\<close>: a str is itself, an int is written in decimal. The text of a float and of a
  container (its \<open>repr\<close>, which escapes strings by Unicode tables) is a parameter \<open>r\<close> of
  the model: every theorem holds whatever \<open>str\<close> returns for them.
\<close>

function digits_of :: "nat \<Rightarrow> pystr" where
  "digits_of n = (if n < 10 then [48 + n] else digits_of (n div 10) @ [48 + n mod 10])"
  by pat_completeness auto
termination
  by (relation "measure id") auto

declare digits_of.simps [simp del]

definition str_int :: "int \<Rightarrow> pystr" where
  "str_int i = (if i < 0 then 45 # digits_of (nat (- i)) else digits_of (nat i))"

fun py_str :: "(json \<Rightarrow> pystr) \<Rightarrow> json \<Rightarrow> pystr" where
  "py_str r (JStr s) = s"
| "py_str r JNull = ascii ''None''"
| "py_str r (JBool b) = (if b then ascii ''True'' else ascii ''False'')"
| "py_str r (JInt i) = str_int i"
| "py_str r v = r v"

text \<open>For documents that hold neither floats nor containers where \<open>str\<close> is applied, any
  function serves as the parameter; the examples use this one.\<close>

definition no_repr :: "json \<Rightarrow> pystr" where
  "no_repr v = []"

text \<open>
  \<open>print(s)\<close> writes \<open>s\<close> to the standard output, which is taken to encode as UTF-8.
  A string that \<open>json.load\<close> has read from an escape such as \<open>\ud800\<close> holds a lone
  surrogate (a code point from D800 to DFFF), which UTF-8 cannot encode: \<open>print\<close> then
  raises a UnicodeEncodeError. Every other string is written.
\<close>

definition surrogate :: "nat \<Rightarrow> bool" where
  "surrogate c = (55296 \<le> c \<and> c \<le> 57343)"

definition encodable :: "pystr \<Rightarrow> bool" where
  "encodable s = (\<not> list_ex surrogate s)"

definition py_print :: "pystr \<Rightarrow> exc + unit" where
  "py_print s = (if encodable s then Inr () else Inl UnicodeEncodeError)"

section \<open>The extractor\<close>

text \<open>
  The two dict literals of the loop. \<open>name\<close> and \<open>ident\<close> (the key \<open>id\<close>) hold whatever
  the document has there, \<open>phone\<close> the captured string.
\<close>

record valid_number =
  name :: json
  phone :: pystr
  ident :: json

record invalid_number =
  name :: json
  phone :: pystr
  reason :: pystr

definition not_specified :: pystr where
  "not_specified = [1594, 1610, 1585, 32, 1605, 1581, 1583, 1583]"

definition not_valid :: pystr where
  "not_valid = [1594, 1610, 1585, 32, 1589, 1581, 1610, 1581]"

text \<open>
  The two literals of the f-string of line 58, before the phone and before the name. The
  f-string formats the name as \<open>str\<close> does.
\<close>

definition checking_number :: pystr where
  "checking_number = [1601, 1581, 1589, 32, 1575, 1604, 1585, 1602, 1605, 58, 32]"

definition for_company :: pystr where
  "for_company = [32, 1604, 1604, 1588, 1585, 1603, 1577, 58, 32]"

text \<open>
  The state of the loops is the pair of the lists \<open>valid_numbers\<close> and \<open>invalid_numbers\<close>.
  An exception leaves the loops at once. Of the calls of \<open>print\<close> the one of line 58
  is modelled, which writes the phone field and the name as the document has them. The
  others cannot raise: they write literals, a count, a captured string (digits only), or,
  behind the loops, a name and a captured string that have been written before.
\<close>

type_synonym lists = "valid_number list \<times> invalid_number list"

text \<open>The loop over \<open>phone_numbers\<close> (line 63).\<close>

fun scan_phone_numbers :: "json \<Rightarrow> json \<Rightarrow> pystr list \<Rightarrow> lists \<Rightarrow> exc + lists" where
  "scan_phone_numbers company company_name [] st = Inr st"
| "scan_phone_numbers company company_name (single_phone # rest) (valid_numbers, invalid_numbers) =
     (if is_valid_egyptian_mobile single_phone then
        (case py_get company (ascii ''id'') (JStr (ascii ''N/A'')) of
           Inl e \<Rightarrow> Inl e
         | Inr i \<Rightarrow>
             scan_phone_numbers company company_name rest
               (valid_numbers @ [\<lparr>valid_number.name = company_name, phone = single_phone, ident = i\<rparr>],
                invalid_numbers))
      else
        scan_phone_numbers company company_name rest
          (valid_numbers,
           invalid_numbers @ [\<lparr>invalid_number.name = company_name, phone = single_phone, reason = not_valid\<rparr>]))"

text \<open>The condition of line 54; \<open>and\<close> evaluates its right side only when the left is true.\<close>

definition has_phone :: "json \<Rightarrow> exc + bool" where
  "has_phone company =
     (case py_in (ascii ''contact_info'') company of
        Inl e \<Rightarrow> Inl e
      | Inr b \<Rightarrow>
          if b then
            (case py_getitem company (ascii ''contact_info'') of
               Inl e \<Rightarrow> Inl e
             | Inr contact_info \<Rightarrow> py_in (ascii ''phone'') contact_info)
          else Inr False)"

text \<open>
  The body of the loop over the companies (lines 54 to 77): the condition, the phone as a
  string, the name, the \<open>print\<close> of line 58, then the loop over the captured strings.
\<close>

definition process_company :: "(json \<Rightarrow> pystr) \<Rightarrow> json \<Rightarrow> lists \<Rightarrow> exc + lists" where
  "process_company r company st =
     (case has_phone company of
        Inl e \<Rightarrow> Inl e
      | Inr b \<Rightarrow>
          if b then
            (case py_getitem company (ascii ''contact_info'') of
               Inl e \<Rightarrow> Inl e
             | Inr contact_info \<Rightarrow>
                 (case py_getitem contact_info (ascii ''phone'') of
                    Inl e \<Rightarrow> Inl e
                  | Inr p \<Rightarrow>
                      (case py_get company (ascii ''company_name_arabic'') (JStr not_specified) of
                         Inl e \<Rightarrow> Inl e
                       | Inr company_name \<Rightarrow>
                           (case py_print (checking_number @ py_str r p @ for_company @
                                             py_str r company_name) of
                              Inl e \<Rightarrow> Inl e
                            | Inr u \<Rightarrow>
                                scan_phone_numbers company company_name
                                  (re_findall_d11 (py_str r p)) st))))
          else Inr st)"

fun scan_companies :: "(json \<Rightarrow> pystr) \<Rightarrow> json list \<Rightarrow> lists \<Rightarrow> exc + lists" where
  "scan_companies r [] st = Inr st"
| "scan_companies r (company # rest) st =
     (case process_company r company st of
        Inl e \<Rightarrow> Inl e
      | Inr st' \<Rightarrow> scan_companies r rest st')"

text \<open>The condition of line 51.\<close>

definition has_companies :: "json \<Rightarrow> exc + bool" where
  "has_companies data =
     (case py_in (ascii ''companies'') data of
        Inl e \<Rightarrow> Inl e
      | Inr b \<Rightarrow>
          if b then
            (case py_getitem data (ascii ''companies'') of
               Inl e \<Rightarrow> Inl e
             | Inr companies \<Rightarrow> Inr (isinstance_list companies))
          else Inr False)"

text \<open>
  Lines 47 to 85: the two lists when the \<open>return\<close> is reached, or the exception that was
  raised before. Only \<open>valid_numbers\<close> is returned; \<open>invalid_numbers\<close> is printed. The
  loop of line 53 runs over \<open>data['companies']\<close>, which the condition has found to be a
  list; the last branch of the case is never taken.
\<close>

definition scan_data :: "(json \<Rightarrow> pystr) \<Rightarrow> json \<Rightarrow> exc + lists" where
  "scan_data r data =
     (case has_companies data of
        Inl e \<Rightarrow> Inl e
      | Inr b \<Rightarrow>
          if b then
            (case py_getitem data (ascii ''companies'') of
               Inl e \<Rightarrow> Inl e
             | Inr companies \<Rightarrow>
                 (case companies of
                    JList xs \<Rightarrow> scan_companies r xs ([], [])
                  | _ \<Rightarrow> Inl TypeError))
          else Inr ([], []))"

text \<open>
  \<open>extract_mobile_numbers\<close>: \<open>loaded\<close> is what \<open>open\<close> and \<open>json.load\<close> gave, the document
  or their exception. Every exception, of the loading and of the scan, is caught and
  answered with the empty list.
\<close>

definition extract_mobile_numbers :: "(json \<Rightarrow> pystr) \<Rightarrow> exc + json \<Rightarrow> valid_number list" where
  "extract_mobile_numbers r loaded =
     (case loaded of
        Inl e \<Rightarrow> []
      | Inr data \<Rightarrow>
          (case scan_data r data of
             Inl e \<Rightarrow> []
           | Inr (valid_numbers, invalid_numbers) \<Rightarrow> valid_numbers))"

section \<open>Notions of the specification\<close>

text \<open>
  The definitions of this section are not taken from the script. They say in the words of
  the specification what the claims speak of, to be compared with what the script does.
\<close>

text \<open>
  A digit run is a maximal contiguous sequence of digits of a string (glossary);
  \<open>digit_runs\<close> lists the runs from left to right.
\<close>

function digit_runs :: "pystr \<Rightarrow> pystr list" where
  "digit_runs [] = []"
| "digit_runs (c # cs) =
     (if py_digit c then takeWhile py_digit (c # cs) # digit_runs (dropWhile py_digit cs)
      else digit_runs cs)"
  by pat_completeness auto
termination
  by (relation "measure length") (auto simp: less_Suc_eq_le length_dropWhile_le)

text \<open>The successive blocks of eleven characters of a string; a rest shorter than eleven is left out.\<close>

function chunks11 :: "pystr \<Rightarrow> pystr list" where
  "chunks11 d = (if length d < 11 then [] else take 11 d # chunks11 (drop 11 d))"
  by pat_completeness auto
termination
  by (relation "measure length") auto

declare chunks11.simps [simp del]


text \<open>
  The record of the specification, read off a company of the document: its phone field
  (absent unless the company is a mapping whose \<open>contact_info\<close> is a mapping with a
  \<open>phone\<close>), its display name and its identifier with their defaults.
\<close>

definition get_or :: "(pystr \<times> json) list \<Rightarrow> pystr \<Rightarrow> json \<Rightarrow> json" where
  "get_or items k d = (case map_of items k of None \<Rightarrow> d | Some v \<Rightarrow> v)"

fun phone_field :: "json \<Rightarrow> json option" where
  "phone_field (JDict items) =
     (case map_of items (ascii ''contact_info'') of
        Some (JDict contact_info) \<Rightarrow> map_of contact_info (ascii ''phone'')
      | _ \<Rightarrow> None)"
| "phone_field v = None"

fun display_name :: "json \<Rightarrow> json" where
  "display_name (JDict items) = get_or items (ascii ''company_name_arabic'') (JStr not_specified)"
| "display_name v = JStr not_specified"

fun record_id :: "json \<Rightarrow> json" where
  "record_id (JDict items) = get_or items (ascii ''id'') (JStr (ascii ''N/A''))"
| "record_id v = JStr (ascii ''N/A'')"

text \<open>
  A record can be printed when the string form of its phone field and of its name hold no
  lone surrogate.
\<close>

definition printable :: "(json \<Rightarrow> pystr) \<Rightarrow> json \<Rightarrow> bool" where
  "printable r c =
     (case phone_field c of
        None \<Rightarrow> True
      | Some p \<Rightarrow> encodable (py_str r p) \<and> encodable (py_str r (display_name c)))"

text \<open>
  A record lacking a phone field: a mapping with no \<open>contact_info\<close>, or whose \<open>contact_info\<close>
  is a mapping with no \<open>phone\<close>.
\<close>

fun lacks_phone :: "json \<Rightarrow> bool" where
  "lacks_phone (JDict items) =
     (case map_of items (ascii ''contact_info'') of
        None \<Rightarrow> True
      | Some (JDict contact_info) \<Rightarrow> map_of contact_info (ascii ''phone'') = None
      | Some v \<Rightarrow> False)"
| "lacks_phone v = False"

text \<open>
  What one record gives to each list, by steps 1 and 2 of the algorithm of the
  specification: the captured strings in the order found, those the validator accepts as
  valid entries, the others as invalid entries.
\<close>

definition valid_entries :: "json \<Rightarrow> json \<Rightarrow> pystr list \<Rightarrow> valid_number list" where
  "valid_entries nm i ps =
     map (\<lambda>p. \<lparr>valid_number.name = nm, phone = p, ident = i\<rparr>)
       (filter is_valid_egyptian_mobile ps)"

definition invalid_entries :: "json \<Rightarrow> pystr list \<Rightarrow> invalid_number list" where
  "invalid_entries nm ps =
     map (\<lambda>p. \<lparr>invalid_number.name = nm, phone = p, reason = not_valid\<rparr>)
       (filter (\<lambda>p. \<not> is_valid_egyptian_mobile p) ps)"

definition record_valid :: "(json \<Rightarrow> pystr) \<Rightarrow> json \<Rightarrow> valid_number list" where
  "record_valid r c =
     (case phone_field c of
        None \<Rightarrow> []
      | Some p \<Rightarrow> valid_entries (display_name c) (record_id c) (re_findall_d11 (py_str r p)))"

definition record_invalid :: "(json \<Rightarrow> pystr) \<Rightarrow> json \<Rightarrow> invalid_number list" where
  "record_invalid r c =
     (case phone_field c of
        None \<Rightarrow> []
      | Some p \<Rightarrow> invalid_entries (display_name c) (re_findall_d11 (py_str r p)))"

text \<open>The record collection of a document: present when the document is a mapping whose
  \<open>companies\<close> is a list.\<close>

fun companies_of :: "json \<Rightarrow> json list option" where
  "companies_of (JDict items) =
     (case map_of items (ascii ''companies'') of
        Some (JList cs) \<Rightarrow> Some cs
      | _ \<Rightarrow> None)"
| "companies_of v = None"

text \<open>A document with the given companies, and a company with the three fields.\<close>

definition document :: "json list \<Rightarrow> json" where
  "document cs = JDict [(ascii ''companies'', JList cs)]"

definition company :: "json \<Rightarrow> pystr \<Rightarrow> pystr \<Rightarrow> json" where
  "company i nm ph =
     JDict [(ascii ''id'', i), (ascii ''company_name_arabic'', JStr nm),
            (ascii ''contact_info'', JDict [(ascii ''phone'', JStr ph)])]"

section \<open>Facts about the digit class and the validator\<close>

lemma py_digit_ascii: "ascii_digit c \<Longrightarrow> py_digit c"
  by (simp add: py_digit_def nd_ranges_def ascii_digit_def)

lemma py_digit_low: "c < 1632 \<Longrightarrow> py_digit c = (48 \<le> c \<and> c \<le> 57)"
  by (auto simp: py_digit_def nd_ranges_def)

lemma list_all_ascii_py: "list_all ascii_digit s \<Longrightarrow> list_all py_digit s"
  by (simp add: list_all_iff py_digit_ascii)

lemma re_sub_non_digits_id: "list_all py_digit s \<Longrightarrow> re_sub_non_digits s = s"
  by (simp add: re_sub_non_digits_def list_all_iff)

lemma re_sub_non_digits_idem: "re_sub_non_digits (re_sub_non_digits s) = re_sub_non_digits s"
  by (simp add: re_sub_non_digits_def)

lemma is_valid_digits:
  "list_all py_digit s \<Longrightarrow>
   is_valid_egyptian_mobile s = (length s = 11 \<and> list_ex (\<lambda>p. prefix p s) valid_prefixes)"
  by (simp add: is_valid_egyptian_mobile_def re_sub_non_digits_id)

lemmas eval_validator =
  ascii_def ascii_digit_def py_digit_low re_sub_non_digits_def valid_prefixes_def
  is_valid_egyptian_mobile_def

section \<open>Facts about the scan for eleven digits\<close>

lemma re_findall_d11_no_match:
  "\<not> (11 \<le> length (c # cs) \<and> list_all py_digit (take 11 (c # cs))) \<Longrightarrow>
   re_findall_d11 (c # cs) = re_findall_d11 cs"
  by (subst re_findall_d11.simps) (rule if_not_P)

lemma re_findall_d11_match:
  assumes "11 \<le> length s" and "list_all py_digit (take 11 s)"
  shows "re_findall_d11 s = take 11 s # re_findall_d11 (drop 11 s)"
proof (cases s)
  case Nil
  with assms show ?thesis by simp
next
  case (Cons c cs)
  from assms have "11 \<le> length (c # cs) \<and> list_all py_digit (take 11 (c # cs))"
    unfolding Cons by (rule conjI)
  then show ?thesis
    unfolding Cons by (subst re_findall_d11.simps) (rule if_P)
qed

lemma re_findall_d11_non_digit: "\<not> py_digit c \<Longrightarrow> re_findall_d11 (c # cs) = re_findall_d11 cs"
  by simp

lemma nth_in_take: "i < n \<Longrightarrow> i < length xs \<Longrightarrow> xs ! i \<in> set (take n xs)"
  by (metis in_set_conv_nth length_take min_less_iff_conj nth_take)

lemma re_findall_d11_short_run:
  "list_all py_digit d \<Longrightarrow> length d < 11 \<Longrightarrow> t = [] \<or> \<not> py_digit (hd t) \<Longrightarrow>
   re_findall_d11 (d @ t) = re_findall_d11 t"
proof (induction d)
  case Nil
  then show ?case by simp
next
  case (Cons c d)
  let ?s = "(c # d) @ t"
  have "\<not> (11 \<le> length ?s \<and> list_all py_digit (take 11 ?s))"
  proof (cases t)
    case Nil
    with Cons.prems show ?thesis by simp
  next
    case (Cons x t')
    with Cons.prems have "\<not> py_digit x" by simp
    moreover have "?s ! length (c # d) = x"
      using Cons by (simp only: nth_append_length)
    moreover have "length (c # d) < length ?s"
      using Cons by simp
    ultimately have "\<exists>y \<in> set (take 11 ?s). \<not> py_digit y"
      using Cons.prems(2) nth_in_take [of "length (c # d)" 11 ?s] by metis
    then show ?thesis by (auto simp: list_all_iff)
  qed
  then have "re_findall_d11 (c # d @ t) = re_findall_d11 (d @ t)"
    unfolding append_Cons by (rule re_findall_d11_no_match)
  with Cons show ?case by (simp del: re_findall_d11.simps)
qed

lemma re_findall_d11_run:
  "list_all py_digit d \<Longrightarrow> t = [] \<or> \<not> py_digit (hd t) \<Longrightarrow>
   re_findall_d11 (d @ t) = chunks11 d @ re_findall_d11 t"
proof (induction d rule: chunks11.induct)
  case (1 d)
  show ?case
  proof (cases "length d < 11")
    case True
    with 1 show ?thesis by (simp add: re_findall_d11_short_run chunks11.simps [of d])
  next
    case False
    from False have t: "take 11 (d @ t) = take 11 d" and dr: "drop 11 (d @ t) = drop 11 d @ t"
      by simp_all
    have a: "list_all py_digit (take 11 d)" and b: "list_all py_digit (drop 11 d)"
      using "1.prems"(1) by (auto simp: list_all_iff dest: in_set_takeD in_set_dropD)
    have "re_findall_d11 (d @ t) = take 11 d # re_findall_d11 (drop 11 d @ t)"
      using False a re_findall_d11_match [of "d @ t"] by (simp add: t dr)
    moreover have "re_findall_d11 (drop 11 d @ t) = chunks11 (drop 11 d) @ re_findall_d11 t"
      using "1.IH" [OF False b "1.prems"(2)] .
    moreover have "chunks11 d = take 11 d # chunks11 (drop 11 d)"
      using False by (subst chunks11.simps) simp
    ultimately show ?thesis by simp
  qed
qed

lemma re_findall_d11_digit_runs: "re_findall_d11 s = concat (map chunks11 (digit_runs s))"
proof (induction s rule: digit_runs.induct)
  case 1
  then show ?case by simp
next
  case (2 c cs)
  show ?case
  proof (cases "py_digit c")
    case False
    with 2 show ?thesis by simp
  next
    case True
    let ?d = "takeWhile py_digit (c # cs)" and ?t = "dropWhile py_digit cs"
    have s: "c # cs = ?d @ ?t" using True by simp
    have "list_all py_digit ?d" by (auto simp: list_all_iff dest: set_takeWhileD)
    moreover have "?t = [] \<or> \<not> py_digit (hd ?t)" using hd_dropWhile [of py_digit cs] by auto
    ultimately have "re_findall_d11 (?d @ ?t) = chunks11 ?d @ re_findall_d11 ?t"
      by (rule re_findall_d11_run)
    moreover have "re_findall_d11 ?t = concat (map chunks11 (digit_runs ?t))"
      using "2.IH"(1) [OF True] .
    moreover have "digit_runs (c # cs) = ?d # digit_runs ?t"
      using True by simp
    ultimately show ?thesis by (simp only: s [symmetric] list.map concat.simps)
  qed
qed

lemma re_findall_d11_elems:
  "m \<in> set (re_findall_d11 s) \<Longrightarrow> length m = 11 \<and> list_all py_digit m"
proof (induction s rule: re_findall_d11.induct)
  case 1
  then show ?case by simp
next
  case (2 c cs)
  show ?case
  proof (cases "11 \<le> length (c # cs) \<and> list_all py_digit (take 11 (c # cs))")
    case True
    then have "re_findall_d11 (c # cs) = take 11 (c # cs) # re_findall_d11 (drop 11 (c # cs))"
      using re_findall_d11_match [of "c # cs"] by blast
    with "2.prems" have "m = take 11 (c # cs) \<or> m \<in> set (re_findall_d11 (drop 11 (c # cs)))"
      by simp
    then show ?thesis
    proof
      assume "m = take 11 (c # cs)"
      with True show ?thesis by (simp del: take_Cons_numeral)
    next
      assume "m \<in> set (re_findall_d11 (drop 11 (c # cs)))"
      with "2.IH"(1) [OF True] show ?thesis .
    qed
  next
    case False
    then have "re_findall_d11 (c # cs) = re_findall_d11 cs"
      by (rule re_findall_d11_no_match)
    with "2.prems" "2.IH"(2) [OF False] show ?thesis by simp
  qed
qed



section \<open>Facts about the loops of the extractor\<close>

lemma scan_phone_numbers_dict:
  "scan_phone_numbers (JDict items) nm ps (v, i) =
     Inr (v @ valid_entries nm (record_id (JDict items)) ps, i @ invalid_entries nm ps)"
  by (induction ps arbitrary: v i) (simp_all add: valid_entries_def invalid_entries_def get_or_def)

lemma phone_field_SomeD:
  "phone_field c = Some p \<Longrightarrow>
   \<exists>items ci. c = JDict items \<and> map_of items (ascii ''contact_info'') = Some (JDict ci) \<and>
     map_of ci (ascii ''phone'') = Some p"
  by (cases c) (auto split: option.splits json.splits)

lemma encodable_append: "encodable (s @ t) = (encodable s \<and> encodable t)"
  by (auto simp: encodable_def)

lemma py_digit_not_surrogate: "py_digit c \<Longrightarrow> \<not> surrogate c"
  by (auto simp: py_digit_def nd_ranges_def surrogate_def)

lemma encodable_digits: "list_all py_digit d \<Longrightarrow> encodable d"
  by (auto simp: encodable_def list_all_iff list_ex_iff dest: py_digit_not_surrogate)

lemma encodable_line_58:
  "encodable (checking_number @ s @ for_company @ t) = (encodable s \<and> encodable t)"
proof -
  have "encodable checking_number" and "encodable for_company"
    by (simp_all add: encodable_def checking_number_def for_company_def surrogate_def)
  then show ?thesis by (simp add: encodable_append)
qed

lemma process_company_phone_print:
  assumes "phone_field c = Some p"
  shows "process_company r c (v, i) =
           (if printable r c then Inr (v @ record_valid r c, i @ record_invalid r c)
            else Inl UnicodeEncodeError)"
proof -
  from phone_field_SomeD [OF assms] obtain items ci where
    c: "c = JDict items" and ci: "map_of items (ascii ''contact_info'') = Some (JDict ci)"
    and p: "map_of ci (ascii ''phone'') = Some p" by blast
  have h: "has_phone c = Inr True"
    by (simp add: has_phone_def c ci p)
  have pr: "printable r (JDict items) =
      (encodable (py_str r p) \<and>
       encodable (py_str r (get_or items (ascii ''company_name_arabic'') (JStr not_specified))))"
    using assms unfolding c by (simp add: printable_def)
  show ?thesis
    using assms h
    by (simp add: process_company_def c ci p pr py_print_def encodable_line_58
        scan_phone_numbers_dict record_valid_def record_invalid_def get_or_def)
qed

lemma process_company_phone:
  assumes "phone_field c = Some p" and "printable r c"
  shows "process_company r c (v, i) = Inr (v @ record_valid r c, i @ record_invalid r c)"
  using process_company_phone_print [OF assms(1), of r v i] assms(2) by simp

lemma process_company_no_phone:
  assumes "phone_field c = None"
  shows "process_company r c st =
           (case has_phone c of Inl e \<Rightarrow> Inl e | Inr b \<Rightarrow> if b then Inl TypeError else Inr st)"
proof (cases c)
  case (JDict items)
  show ?thesis
  proof (cases "map_of items (ascii ''contact_info'')")
    case None
    then show ?thesis by (simp add: process_company_def has_phone_def JDict)
  next
    case (Some x)
    with assms JDict show ?thesis
      by (cases x) (simp_all add: process_company_def has_phone_def)
  qed
qed (simp_all add: process_company_def has_phone_def)

lemma process_company_result:
  assumes "process_company r c (v, i) = Inr (v', i')"
  shows "v' = v @ record_valid r c \<and> i' = i @ record_invalid r c"
proof (cases "phone_field c")
  case None
  with assms process_company_no_phone [OF None, of r "(v, i)"]
  show ?thesis
    by (auto simp: record_valid_def record_invalid_def split: sum.splits if_splits)
next
  case (Some p)
  with assms process_company_phone_print [OF Some, of r v i] show ?thesis
    by (simp split: if_splits)
qed

lemma process_company_raise:
  assumes "process_company r c st = Inl e"
  shows "process_company r c st' = Inl e"
proof (cases "phone_field c")
  case None
  with assms process_company_no_phone [OF None, of r st] process_company_no_phone [OF None, of r st']
  show ?thesis by (auto split: sum.splits if_splits)
next
  case (Some p)
  with assms process_company_phone_print [OF Some, of r "fst st" "snd st"]
    process_company_phone_print [OF Some, of r "fst st'" "snd st'"]
  show ?thesis by (simp split: if_splits)
qed

lemma process_company_lacks_phone: "lacks_phone c \<Longrightarrow> process_company r c st = Inr st"
proof (cases c)
  case (JDict items)
  assume "lacks_phone c"
  with JDict show ?thesis
    by (auto simp: process_company_def has_phone_def split: option.splits json.splits)
qed simp_all

lemma scan_companies_append:
  "scan_companies r (xs @ ys) st =
     (case scan_companies r xs st of Inl e \<Rightarrow> Inl e | Inr st' \<Rightarrow> scan_companies r ys st')"
  by (induction xs arbitrary: st) (simp_all split: sum.splits)

lemma scan_companies_result:
  "scan_companies r cs (v, i) = Inr (v', i') \<Longrightarrow>
   v' = v @ concat (map (record_valid r) cs) \<and> i' = i @ concat (map (record_invalid r) cs)"
proof (induction cs arbitrary: v i)
  case Nil
  then show ?case by simp
next
  case (Cons c cs)
  from Cons.prems obtain v1 i1 where
    step: "process_company r c (v, i) = Inr (v1, i1)" and
    rest: "scan_companies r cs (v1, i1) = Inr (v', i')"
    by (auto split: sum.splits)
  from process_company_result [OF step] Cons.IH [OF rest] show ?case by simp
qed

lemma scan_companies_raise:
  "c \<in> set cs \<Longrightarrow> process_company r c st0 = Inl e \<Longrightarrow> \<exists>e'. scan_companies r cs st = Inl e'"
proof (induction cs arbitrary: st)
  case Nil
  then show ?case by simp
next
  case (Cons x cs)
  show ?case
  proof (cases "process_company r x st")
    case (Inl e')
    then show ?thesis by simp
  next
    case (Inr st')
    have "x \<noteq> c"
    proof
      assume "x = c"
      with process_company_raise [OF Cons.prems(2), of st] Inr show False by simp
    qed
    with Cons.prems(1) have "c \<in> set cs" by simp
    from Cons.IH [OF this Cons.prems(2), of st'] Inr show ?thesis by simp
  qed
qed

lemma scan_data_companies:
  "py_getitem data (ascii ''companies'') = Inr (JList cs) \<Longrightarrow>
   scan_data r data = scan_companies r cs ([], [])"
  by (cases data) (auto simp: scan_data_def has_companies_def split: option.splits)

lemma scan_data_document: "scan_data r (document cs) = scan_companies r cs ([], [])"
  by (simp add: scan_data_companies document_def)

lemma re_findall_d11_no_digits:
  "list_all (\<lambda>x. \<not> py_digit x) s \<Longrightarrow> re_findall_d11 s = []"
  by (induction s) (simp_all add: re_findall_d11_non_digit del: re_findall_d11.simps(2))

lemma chunks11_exact: "length d = 11 \<Longrightarrow> chunks11 d = [d]"
  by (subst chunks11.simps, subst chunks11.simps) simp

lemma length_chunks11: "length (chunks11 d) = length d div 11"
proof (induction d rule: chunks11.induct)
  case (1 d)
  show ?case
  proof (cases "length d < 11")
    case True
    then show ?thesis by (subst chunks11.simps) simp
  next
    case False
    then have "chunks11 d = take 11 d # chunks11 (drop 11 d)"
      by (subst chunks11.simps) simp
    with "1.IH" [OF False] False show ?thesis
      by (simp add: le_div_geq del: chunks11.simps)
  qed
qed

lemma re_findall_d11_embedded:
  assumes "list_all (\<lambda>x. \<not> py_digit x) pre" and "list_all (\<lambda>x. \<not> py_digit x) post"
    and "length d = 11" and "list_all py_digit d"
  shows "re_findall_d11 (pre @ d @ post) = [d]"
proof -
  have "post = [] \<or> \<not> py_digit (hd post)"
    using assms(2) by (cases post) simp_all
  with assms(4) have "re_findall_d11 (d @ post) = chunks11 d @ re_findall_d11 post"
    by (rule re_findall_d11_run)
  then have "re_findall_d11 (d @ post) = [d]"
    using assms(2,3) by (simp add: chunks11_exact re_findall_d11_no_digits)
  moreover have "re_findall_d11 (pre @ d @ post) = re_findall_d11 (d @ post)"
    using assms(1)
    by (induction pre) (simp_all add: re_findall_d11_non_digit del: re_findall_d11.simps(2))
  ultimately show ?thesis by simp
qed

lemma re_findall_d11_single:
  "length d = 11 \<Longrightarrow> list_all py_digit d \<Longrightarrow> re_findall_d11 d = [d]"
  using re_findall_d11_embedded [of "[]" "[]" d] by simp

lemma companies_of_SomeD:
  "companies_of data = Some cs \<Longrightarrow> py_getitem data (ascii ''companies'') = Inr (JList cs)"
  by (cases data) (auto split: option.splits json.splits)

lemma scan_data_no_companies:
  "companies_of data = None \<Longrightarrow>
   scan_data r data = Inr ([], []) \<or> scan_data r data = Inl TypeError"
proof (cases data)
  case (JDict items)
  assume "companies_of data = None"
  with JDict show ?thesis
    by (cases "map_of items (ascii ''companies'')")
      (auto simp: scan_data_def has_companies_def split: json.splits)
qed (simp_all add: scan_data_def has_companies_def)

lemma scan_data_cases:
  assumes "scan_data r data = Inr st"
  shows "st = ([], []) \<or> (\<exists>cs. companies_of data = Some cs \<and> scan_companies r cs ([], []) = Inr st)"
proof (cases "companies_of data")
  case None
  from scan_data_no_companies [OF None, of r] assms show ?thesis by auto
next
  case (Some cs)
  from scan_data_companies [OF companies_of_SomeD [OF Some], of r] assms Some
  show ?thesis by simp
qed

lemma companies_of_document: "companies_of (document cs) = Some cs"
  by (simp add: document_def)

lemma record_valid_phones:
  "e \<in> set (record_valid r c) \<Longrightarrow>
   length (valid_number.phone e) = 11 \<and> list_all py_digit (valid_number.phone e) \<and>
   list_ex (\<lambda>p. prefix p (valid_number.phone e)) valid_prefixes"
proof -
  assume e: "e \<in> set (record_valid r c)"
  then obtain p where "phone_field c = Some p"
    by (cases "phone_field c") (simp_all add: record_valid_def)
  with e have m: "valid_number.phone e \<in> set (re_findall_d11 (py_str r p))"
    and v: "is_valid_egyptian_mobile (valid_number.phone e)"
    by (auto simp: record_valid_def valid_entries_def)
  from re_findall_d11_elems [OF m] v show ?thesis
    by (simp add: is_valid_digits)
qed

lemma record_invalid_phones:
  "e \<in> set (record_invalid r c) \<Longrightarrow>
   length (invalid_number.phone e) = 11 \<and> list_all py_digit (invalid_number.phone e) \<and>
   \<not> list_ex (\<lambda>p. prefix p (invalid_number.phone e)) valid_prefixes"
proof -
  assume e: "e \<in> set (record_invalid r c)"
  then obtain p where "phone_field c = Some p"
    by (cases "phone_field c") (simp_all add: record_invalid_def)
  with e have m: "invalid_number.phone e \<in> set (re_findall_d11 (py_str r p))"
    and v: "\<not> is_valid_egyptian_mobile (invalid_number.phone e)"
    by (auto simp: record_invalid_def invalid_entries_def)
  from re_findall_d11_elems [OF m] v show ?thesis
    by (simp add: is_valid_digits)
qed

lemmas eval_extractor =
  eval_validator document_def company_def scan_data_def has_companies_def process_company_def
  py_print_def encodable_def surrogate_def checking_number_def for_company_def
  has_phone_def extract_mobile_numbers_def

text \<open>
  A record whose name holds a lone surrogate ends the extraction at line 58: the
  \<open>print\<close> raises, and the empty list is returned.
\<close>

lemma unprintable_name_aborts:
  "scan_data no_repr (document [company (JInt 2) [55296] (ascii ''09912345678'')]) =
     Inl UnicodeEncodeError \<and>
   extract_mobile_numbers no_repr
     (Inr (document [company (JInt 2) [55296] (ascii ''09912345678'')])) = []"
  by (simp add: eval_extractor)

section \<open>The validator: claims\<close>

text \<open>
  Claim C1. For a string \<open>d\<close> of exactly eleven digits \<open>0\<close> to \<open>9\<close> the validator answers
  true if and only if \<open>d\<close> starts with \<open>010\<close>, \<open>011\<close>, \<open>012\<close> or \<open>015\<close>; for a string \<open>s\<close>
  of digits \<open>0\<close> to \<open>9\<close> whose length is not eleven it answers false.
\<close>

theorem is_valid_egyptian_mobile_digit_strings:
  "(list_all ascii_digit d \<and> length d = 11 \<longrightarrow>
      is_valid_egyptian_mobile d =
        (prefix (ascii ''010'') d \<or> prefix (ascii ''011'') d \<or>
         prefix (ascii ''012'') d \<or> prefix (ascii ''015'') d)) \<and>
   (list_all ascii_digit s \<and> length s \<noteq> 11 \<longrightarrow> \<not> is_valid_egyptian_mobile s)"
  by (auto simp: is_valid_digits list_all_ascii_py valid_prefixes_def)

theorem is_valid_egyptian_mobile_digit_strings_witness:
  "list_all ascii_digit (ascii ''01112345678'') \<and> length (ascii ''01112345678'') = 11 \<and>
   is_valid_egyptian_mobile (ascii ''01112345678'') \<and>
   list_all ascii_digit (ascii ''09912345678'') \<and> length (ascii ''09912345678'') = 11 \<and>
   \<not> is_valid_egyptian_mobile (ascii ''09912345678'') \<and>
   list_all ascii_digit (ascii ''0101234567'') \<and> length (ascii ''0101234567'') \<noteq> 11 \<and>
   \<not> is_valid_egyptian_mobile (ascii ''0101234567'')"
  using is_valid_egyptian_mobile_digit_strings [of "ascii ''01112345678''" "ascii ''0101234567''"]
    is_valid_egyptian_mobile_digit_strings [of "ascii ''09912345678''" "ascii ''0101234567''"]
  by (simp add: ascii_def ascii_digit_def)

text \<open>
  Claim C9. The validator normalises its own argument: on every string \<open>s\<close> it answers
  what it answers on \<open>s\<close> with the non-digits deleted. So the punctuated string
  \<open>010-1234-5678\<close>, of length thirteen, is accepted.
\<close>

theorem is_valid_egyptian_mobile_normalises:
  "is_valid_egyptian_mobile s = is_valid_egyptian_mobile (re_sub_non_digits s) \<and>
   length (ascii ''010-1234-5678'') = 13 \<and>
   is_valid_egyptian_mobile (ascii ''010-1234-5678'')"
proof -
  have "is_valid_egyptian_mobile s = is_valid_egyptian_mobile (re_sub_non_digits s)"
    by (simp add: is_valid_egyptian_mobile_def re_sub_non_digits_idem)
  moreover have "length (ascii ''010-1234-5678'') = 13"
    by (simp add: ascii_def)
  moreover have "is_valid_egyptian_mobile (ascii ''010-1234-5678'')"
    by (simp add: eval_validator)
  ultimately show ?thesis by simp
qed

section \<open>The extractor: claims\<close>

text \<open>
  Claim C2 says that the extraction returns a pair of sequences (valid, invalid) and that,
  for the record with id 2, name Beta and phone \<open>09912345678\<close>, the returned invalid list
  holds an entry for that number. The script returns \<open>valid_numbers\<close> alone: on this
  record the returned list is empty, and the entry exists only in the list
  \<open>invalid_numbers\<close> that the scan has built and printed.
\<close>

theorem scenario_B_returns_valid_list_only:
  "extract_mobile_numbers no_repr (Inr (document [company (JInt 2) (ascii ''Beta'') (ascii ''09912345678'')])) = [] \<and>
   scan_data no_repr (document [company (JInt 2) (ascii ''Beta'') (ascii ''09912345678'')]) =
     Inr ([], [\<lparr>invalid_number.name = JStr (ascii ''Beta''), phone = ascii ''09912345678'',
                reason = not_valid\<rparr>])"
  by (simp add: eval_extractor)

text \<open>
  Claim C2, amended. The extraction builds two sequences, valid and invalid, and returns
  the valid one only. For a record whose phone field is a string of eleven digits that
  starts with none of the valid prefixes, and whose name can be printed (it holds no lone
  surrogate), the scan appends the entry with the record's
  name, that number and the reason to the invalid sequence and leaves the valid sequence
  as it was; on a collection of this record alone the invalid sequence is that one entry
  and the returned valid sequence is empty.
\<close>

theorem wrong_prefix_goes_to_invalid_list:
  assumes "phone_field c = Some (JStr d)"
    and "length d = 11" and "list_all py_digit d"
    and "\<not> list_ex (\<lambda>p. prefix p d) valid_prefixes"
    and "printable r c"
  shows "process_company r c (v, i) =
           Inr (v, i @ [\<lparr>invalid_number.name = display_name c, phone = d, reason = not_valid\<rparr>]) \<and>
         scan_data r (document [c]) =
           Inr ([], [\<lparr>invalid_number.name = display_name c, phone = d, reason = not_valid\<rparr>]) \<and>
         extract_mobile_numbers r (Inr (document [c])) = []"
proof -
  have f: "re_findall_d11 (py_str r (JStr d)) = [d]"
    using assms(2,3) by (simp add: re_findall_d11_single)
  have nv: "\<not> is_valid_egyptian_mobile d"
    using assms(3,4) by (simp add: is_valid_digits)
  have rv: "record_valid r c = []"
    using assms(1) f nv by (simp add: record_valid_def valid_entries_def)
  have ri: "record_invalid r c =
      [\<lparr>invalid_number.name = display_name c, phone = d, reason = not_valid\<rparr>]"
    using assms(1) f nv by (simp add: record_invalid_def invalid_entries_def)
  have p: "\<And>v i. process_company r c (v, i) =
      Inr (v, i @ [\<lparr>invalid_number.name = display_name c, phone = d, reason = not_valid\<rparr>])"
    using process_company_phone [OF assms(1,5)] by (simp add: rv ri)
  have s: "scan_data r (document [c]) =
      Inr ([], [\<lparr>invalid_number.name = display_name c, phone = d, reason = not_valid\<rparr>])"
    by (simp add: scan_data_document p)
  show ?thesis
    by (simp add: p s extract_mobile_numbers_def)
qed

theorem wrong_prefix_goes_to_invalid_list_witness:
  "phone_field (company (JInt 2) (ascii ''Beta'') (ascii ''09912345678'')) = Some (JStr (ascii ''09912345678'')) \<and>
   length (ascii ''09912345678'') = 11 \<and> list_all py_digit (ascii ''09912345678'') \<and>
   \<not> list_ex (\<lambda>p. prefix p (ascii ''09912345678'')) valid_prefixes \<and>
   printable no_repr (company (JInt 2) (ascii ''Beta'') (ascii ''09912345678'')) \<and>
   process_company no_repr (company (JInt 2) (ascii ''Beta'') (ascii ''09912345678'')) ([], []) =
     Inr ([], [\<lparr>invalid_number.name = JStr (ascii ''Beta''), phone = ascii ''09912345678'',
                reason = not_valid\<rparr>])"
proof -
  have a: "phone_field (company (JInt 2) (ascii ''Beta'') (ascii ''09912345678'')) = Some (JStr (ascii ''09912345678''))"
    by (simp add: company_def ascii_def)
  have b: "length (ascii ''09912345678'') = 11" by (simp add: ascii_def)
  have c: "list_all py_digit (ascii ''09912345678'')" by (simp add: eval_validator)
  have d: "\<not> list_ex (\<lambda>p. prefix p (ascii ''09912345678'')) valid_prefixes"
    by (simp add: eval_validator)
  have e: "display_name (company (JInt 2) (ascii ''Beta'') (ascii ''09912345678'')) = JStr (ascii ''Beta'')"
    by (simp add: company_def ascii_def get_or_def)
  have f: "printable no_repr (company (JInt 2) (ascii ''Beta'') (ascii ''09912345678''))"
    unfolding printable_def a e by (simp add: encodable_def surrogate_def ascii_def)
  from wrong_prefix_goes_to_invalid_list [OF a b c d f, of "[]" "[]"] a b c d e f
  show ?thesis by simp
qed

text \<open>
  Claim C3 says that a record whose phone field is one valid number interspersed with
  punctuation, such as \<open>010-1234-5678\<close>, yields exactly one valid entry with the number
  \<open>01012345678\<close>. The scan looks for eleven digits in a row in the field as it is
  written, finds none in \<open>010-1234-5678\<close>, and the record yields no entry at all.
\<close>

theorem punctuated_number_not_extracted:
  "re_sub_non_digits (ascii ''010-1234-5678'') = ascii ''01012345678'' \<and>
   is_valid_egyptian_mobile (ascii ''01012345678'') \<and>
   scan_data no_repr (document [company (JInt 1) (ascii ''Acme'') (ascii ''010-1234-5678'')]) = Inr ([], []) \<and>
   extract_mobile_numbers no_repr (Inr (document [company (JInt 1) (ascii ''Acme'') (ascii ''010-1234-5678'')])) = []"
  by (simp add: eval_extractor)

text \<open>
  Claim C3, amended. For every record whose phone field is a string whose only digits are
  the eleven digits of one valid number, standing in a row (characters that are not
  digits may stand before and behind them, none between them), and whose phone field and
  name can be printed (they hold no lone surrogate), the extraction yields exactly one
  valid entry, with that number, and no invalid entry.
\<close>

theorem contiguous_number_extracted:
  assumes "phone_field c = Some (JStr (pre @ d @ post))"
    and "list_all (\<lambda>x. \<not> py_digit x) pre" and "list_all (\<lambda>x. \<not> py_digit x) post"
    and "length d = 11" and "list_all py_digit d"
    and "list_ex (\<lambda>p. prefix p d) valid_prefixes"
    and "printable r c"
  shows "process_company r c (v, i) =
           Inr (v @ [\<lparr>valid_number.name = display_name c, phone = d, ident = record_id c\<rparr>], i) \<and>
         scan_data r (document [c]) =
           Inr ([\<lparr>valid_number.name = display_name c, phone = d, ident = record_id c\<rparr>], []) \<and>
         extract_mobile_numbers r (Inr (document [c])) =
           [\<lparr>valid_number.name = display_name c, phone = d, ident = record_id c\<rparr>]"
proof -
  have f: "re_findall_d11 (py_str r (JStr (pre @ d @ post))) = [d]"
    using assms(2-5) by (simp add: re_findall_d11_embedded)
  have va: "is_valid_egyptian_mobile d"
    using assms(4-6) by (simp add: is_valid_digits)
  have rv: "record_valid r c =
      [\<lparr>valid_number.name = display_name c, phone = d, ident = record_id c\<rparr>]"
    using assms(1) f va by (simp add: record_valid_def valid_entries_def)
  have ri: "record_invalid r c = []"
    using assms(1) f va by (simp add: record_invalid_def invalid_entries_def)
  have p: "\<And>v i. process_company r c (v, i) =
      Inr (v @ [\<lparr>valid_number.name = display_name c, phone = d, ident = record_id c\<rparr>], i)"
    using process_company_phone [OF assms(1,7)] by (simp add: rv ri)
  have s: "scan_data r (document [c]) =
      Inr ([\<lparr>valid_number.name = display_name c, phone = d, ident = record_id c\<rparr>], [])"
    by (simp add: scan_data_document p)
  show ?thesis
    by (simp add: p s extract_mobile_numbers_def)
qed

theorem contiguous_number_extracted_witness:
  "phone_field (company (JInt 1) (ascii ''Acme'') (ascii ''Tel: 01012345678.'')) =
     Some (JStr (ascii ''Tel: '' @ ascii ''01012345678'' @ ascii ''.'')) \<and>
   list_all (\<lambda>x. \<not> py_digit x) (ascii ''Tel: '') \<and> list_all (\<lambda>x. \<not> py_digit x) (ascii ''.'') \<and>
   length (ascii ''01012345678'') = 11 \<and> list_all py_digit (ascii ''01012345678'') \<and>
   list_ex (\<lambda>p. prefix p (ascii ''01012345678'')) valid_prefixes \<and>
   printable no_repr (company (JInt 1) (ascii ''Acme'') (ascii ''Tel: 01012345678.'')) \<and>
   extract_mobile_numbers no_repr (Inr (document [company (JInt 1) (ascii ''Acme'') (ascii ''Tel: 01012345678.'')])) =
     [\<lparr>valid_number.name = JStr (ascii ''Acme''), phone = ascii ''01012345678'', ident = JInt 1\<rparr>]"
proof -
  let ?c = "company (JInt 1) (ascii ''Acme'') (ascii ''Tel: 01012345678.'')"
  have a: "phone_field ?c = Some (JStr (ascii ''Tel: '' @ ascii ''01012345678'' @ ascii ''.''))"
    by (simp add: company_def ascii_def)
  have b: "list_all (\<lambda>x. \<not> py_digit x) (ascii ''Tel: '')" by (simp add: eval_validator)
  have c: "list_all (\<lambda>x. \<not> py_digit x) (ascii ''.'')" by (simp add: eval_validator)
  have d: "length (ascii ''01012345678'') = 11" by (simp add: ascii_def)
  have e: "list_all py_digit (ascii ''01012345678'')" by (simp add: eval_validator)
  have f: "list_ex (\<lambda>p. prefix p (ascii ''01012345678'')) valid_prefixes"
    by (simp add: eval_validator)
  have g: "display_name ?c = JStr (ascii ''Acme'')" "record_id ?c = JInt 1"
    by (simp_all add: company_def ascii_def get_or_def)
  have h: "printable no_repr ?c"
    unfolding printable_def a g by (simp add: encodable_def surrogate_def ascii_def)
  from contiguous_number_extracted [OF a b c d e f h, of "[]" "[]"] a b c d e f g h
  show ?thesis by simp
qed

text \<open>
  Claim C4 says that the extractor captures exactly the maximal digit runs of length
  eleven, and that a maximal run of any other length gives no captured number. The phone
  field \<open>010123456789\<close> is one maximal run of twelve digits, and the scan captures its
  first eleven digits.
\<close>

theorem longer_run_is_captured:
  "digit_runs (ascii ''010123456789'') = [ascii ''010123456789''] \<and>
   length (ascii ''010123456789'') = 12 \<and>
   scan_data no_repr (document [company (JInt 1) (ascii ''Acme'') (ascii ''010123456789'')]) =
     Inr ([\<lparr>valid_number.name = JStr (ascii ''Acme''), phone = ascii ''01012345678'',
            ident = JInt 1\<rparr>], [])"
  by (simp add: eval_extractor)

text \<open>
  Claim C4, amended. For every record with a phone field, whose phone field and name can
  be printed (their string forms hold no lone surrogate), the extractor captures, for
  each maximal digit run of the string form of the field from left to right, the
  successive blocks of eleven digits of the run: a run shorter than eleven gives nothing,
  a run of exactly eleven gives itself, and a longer run gives its blocks of eleven from
  the left, the rest shorter than eleven being dropped. The captured numbers that the
  validator accepts are the phones of the record's valid entries, the others the phones
  of its invalid entries.
\<close>

theorem captures_blocks_of_digit_runs:
  assumes "phone_field c = Some p" and "printable r c"
  shows "\<exists>v i. process_company r c ([], []) = Inr (v, i) \<and>
           map valid_number.phone v =
             filter is_valid_egyptian_mobile (concat (map chunks11 (digit_runs (py_str r p)))) \<and>
           map invalid_number.phone i =
             filter (\<lambda>x. \<not> is_valid_egyptian_mobile x)
               (concat (map chunks11 (digit_runs (py_str r p))))"
proof -
  have "process_company r c ([], []) = Inr (record_valid r c, record_invalid r c)"
    using process_company_phone [OF assms, of "[]" "[]"] by simp
  moreover have "map valid_number.phone (record_valid r c) =
      filter is_valid_egyptian_mobile (concat (map chunks11 (digit_runs (py_str r p))))"
    using assms(1)
    by (simp add: record_valid_def valid_entries_def re_findall_d11_digit_runs comp_def)
  moreover have "map invalid_number.phone (record_invalid r c) =
      filter (\<lambda>x. \<not> is_valid_egyptian_mobile x) (concat (map chunks11 (digit_runs (py_str r p))))"
    using assms(1)
    by (simp add: record_invalid_def invalid_entries_def re_findall_d11_digit_runs comp_def)
  ultimately show ?thesis by blast
qed

theorem captures_blocks_of_digit_runs_witness:
  "phone_field (company (JInt 1) (ascii ''Acme'') (ascii ''0101234567 / 010123456789'')) =
     Some (JStr (ascii ''0101234567 / 010123456789'')) \<and>
   printable no_repr (company (JInt 1) (ascii ''Acme'') (ascii ''0101234567 / 010123456789'')) \<and>
   digit_runs (ascii ''0101234567 / 010123456789'') = [ascii ''0101234567'', ascii ''010123456789''] \<and>
   (\<exists>v i. process_company no_repr (company (JInt 1) (ascii ''Acme'') (ascii ''0101234567 / 010123456789'')) ([], []) =
       Inr (v, i) \<and>
     map valid_number.phone v = [ascii ''01012345678''] \<and> map invalid_number.phone i = [])"
proof -
  let ?c = "company (JInt 1) (ascii ''Acme'') (ascii ''0101234567 / 010123456789'')"
  have a: "phone_field ?c = Some (JStr (ascii ''0101234567 / 010123456789''))"
    by (simp add: company_def ascii_def)
  have b: "digit_runs (ascii ''0101234567 / 010123456789'') =
      [ascii ''0101234567'', ascii ''010123456789'']"
    by (simp add: eval_validator)
  have c: "chunks11 (ascii ''0101234567'') = []"
    "chunks11 (ascii ''010123456789'') = [ascii ''01012345678'']"
    by (simp_all add: ascii_def chunks11.simps)
  have d: "is_valid_egyptian_mobile (ascii ''01012345678'')"
    by (simp add: eval_validator)
  have e: "display_name ?c = JStr (ascii ''Acme'')"
    by (simp add: company_def ascii_def get_or_def)
  have f: "printable no_repr ?c"
    unfolding printable_def a e by (simp add: encodable_def surrogate_def ascii_def)
  from captures_blocks_of_digit_runs [OF a f] show ?thesis
    by (simp add: a b c d f)
qed

text \<open>
  Claim C5 says that every phone of a valid or an invalid entry is exactly eleven decimal
  digits, which the specification writes \<open>0\<close> to \<open>9\<close>. The pattern \<open>\d\<close> of a \<open>str\<close>
  regular expression matches the decimal digits of every script. The phone field \<open>010\<close>
  followed by the eight Arabic-Indic digits one to eight (code points 1633 to 1640) is
  captured and accepted, and the valid entry holds it as it is.
\<close>

theorem arabic_indic_digits_are_captured:
  "scan_data no_repr
     (document [company (JInt 1) (ascii ''Acme'')
        (ascii ''010'' @ [1633, 1634, 1635, 1636, 1637, 1638, 1639, 1640])]) =
     Inr ([\<lparr>valid_number.name = JStr (ascii ''Acme''),
            phone = ascii ''010'' @ [1633, 1634, 1635, 1636, 1637, 1638, 1639, 1640],
            ident = JInt 1\<rparr>], []) \<and>
   \<not> list_all ascii_digit (ascii ''010'' @ [1633, 1634, 1635, 1636, 1637, 1638, 1639, 1640])"
  by (simp add: eval_extractor py_digit_def nd_ranges_def)

text \<open>
  Claim C5, amended. For every document, every phone of a valid entry, in the returned
  list and in the list built by the scan, is exactly eleven characters that \<open>\d\<close> matches
  (decimal digits of Unicode, \<open>0\<close> to \<open>9\<close> among them) and starts with \<open>010\<close>, \<open>011\<close>,
  \<open>012\<close> or \<open>015\<close>; every phone of an invalid entry is exactly eleven such characters
  and starts with none of them.
\<close>

theorem result_phones_invariant:
  "(\<forall>e \<in> set (extract_mobile_numbers r loaded).
      length (valid_number.phone e) = 11 \<and> list_all py_digit (valid_number.phone e) \<and>
      list_ex (\<lambda>p. prefix p (valid_number.phone e)) valid_prefixes) \<and>
   (scan_data r data = Inr (v, i) \<longrightarrow>
      (\<forall>e \<in> set v.
         length (valid_number.phone e) = 11 \<and> list_all py_digit (valid_number.phone e) \<and>
         list_ex (\<lambda>p. prefix p (valid_number.phone e)) valid_prefixes) \<and>
      (\<forall>e \<in> set i.
         length (invalid_number.phone e) = 11 \<and> list_all py_digit (invalid_number.phone e) \<and>
         \<not> list_ex (\<lambda>p. prefix p (invalid_number.phone e)) valid_prefixes))"
proof -
  have lists: "(\<forall>e \<in> set v'.
         length (valid_number.phone e) = 11 \<and> list_all py_digit (valid_number.phone e) \<and>
         list_ex (\<lambda>p. prefix p (valid_number.phone e)) valid_prefixes) \<and>
      (\<forall>e \<in> set i'.
         length (invalid_number.phone e) = 11 \<and> list_all py_digit (invalid_number.phone e) \<and>
         \<not> list_ex (\<lambda>p. prefix p (invalid_number.phone e)) valid_prefixes)"
    if "scan_data r d = Inr (v', i')" for d v' i'
  proof -
    from scan_data_cases [OF that] show ?thesis
    proof
      assume "(v', i') = ([], [])"
      then show ?thesis by simp
    next
      assume "\<exists>cs. companies_of d = Some cs \<and> scan_companies r cs ([], []) = Inr (v', i')"
      then obtain cs where "scan_companies r cs ([], []) = Inr (v', i')" by blast
      from scan_companies_result [OF this]
      have "v' = concat (map (record_valid r) cs)" and "i' = concat (map (record_invalid r) cs)"
        by simp_all
      then show ?thesis
        using record_valid_phones record_invalid_phones by auto
    qed
  qed
  have "\<forall>e \<in> set (extract_mobile_numbers r loaded).
      length (valid_number.phone e) = 11 \<and> list_all py_digit (valid_number.phone e) \<and>
      list_ex (\<lambda>p. prefix p (valid_number.phone e)) valid_prefixes"
  proof (cases loaded)
    case (Inl e)
    then show ?thesis by (simp add: extract_mobile_numbers_def)
  next
    case (Inr d)
    show ?thesis
    proof (cases "scan_data r d")
      case (Inl e)
      with Inr show ?thesis by (simp add: extract_mobile_numbers_def)
    next
      case (Inr st)
      obtain v' i' where st: "st = (v', i')" by (cases st)
      from lists [of d v' i'] Inr st \<open>loaded = Inr d\<close> show ?thesis
        by (simp add: extract_mobile_numbers_def)
    qed
  qed
  with lists [of data v i] show ?thesis by blast
qed

theorem result_phones_invariant_witness:
  "scan_data no_repr
     (document [company (JInt 1) (ascii ''Acme'') (ascii ''01123456789''), company (JInt 2) (ascii ''Beta'') (ascii ''09912345678'')]) =
     Inr ([\<lparr>valid_number.name = JStr (ascii ''Acme''), phone = ascii ''01123456789'', ident = JInt 1\<rparr>],
          [\<lparr>invalid_number.name = JStr (ascii ''Beta''), phone = ascii ''09912345678'',
            reason = not_valid\<rparr>]) \<and>
   length (ascii ''01123456789'') = 11 \<and> list_all py_digit (ascii ''01123456789'') \<and>
   list_ex (\<lambda>p. prefix p (ascii ''01123456789'')) valid_prefixes \<and>
   length (ascii ''09912345678'') = 11 \<and> list_all py_digit (ascii ''09912345678'') \<and>
   \<not> list_ex (\<lambda>p. prefix p (ascii ''09912345678'')) valid_prefixes"
proof -
  let ?d = "document [company (JInt 1) (ascii ''Acme'') (ascii ''01123456789''),
                      company (JInt 2) (ascii ''Beta'') (ascii ''09912345678'')]"
  let ?v = "[\<lparr>valid_number.name = JStr (ascii ''Acme''), phone = ascii ''01123456789'',
              ident = JInt 1\<rparr>]"
  let ?i = "[\<lparr>invalid_number.name = JStr (ascii ''Beta''), phone = ascii ''09912345678'',
              reason = not_valid\<rparr>]"
  have sd: "scan_data no_repr ?d = Inr (?v, ?i)"
    by (simp add: eval_extractor)
  from result_phones_invariant [of no_repr "Inr ?d" ?d ?v ?i] sd show ?thesis
    by simp
qed



text \<open>
  Claim C7. The extraction raises nothing: an exception of the loading or of the scan is
  answered with the empty list. A document that lacks the expected structure (it is not
  a mapping whose \<open>companies\<close> is a list) leaves both lists empty or raises inside the
  scan, and the empty list is returned. An empty collection leaves both lists empty.
\<close>

theorem extraction_never_raises:
  "extract_mobile_numbers r (Inl e) = [] \<and>
   (scan_data r data = Inl e \<longrightarrow> extract_mobile_numbers r (Inr data) = []) \<and>
   (companies_of data = None \<longrightarrow>
      (scan_data r data = Inr ([], []) \<or> scan_data r data = Inl TypeError) \<and>
      extract_mobile_numbers r (Inr data) = []) \<and>
   scan_data r (document []) = Inr ([], []) \<and>
   extract_mobile_numbers r (Inr (document [])) = []"
proof -
  have "extract_mobile_numbers r (Inr data) = []" if "companies_of data = None"
    using scan_data_no_companies [OF that, of r]
    by (auto simp: extract_mobile_numbers_def)
  moreover have "scan_data r (document []) = Inr ([], [])"
    by (simp add: scan_data_document)
  ultimately show ?thesis
    using scan_data_no_companies [of data r]
    by (simp add: extract_mobile_numbers_def)
qed

theorem extraction_never_raises_witness:
  "scan_data no_repr (document [JNull]) = Inl TypeError \<and>
   extract_mobile_numbers no_repr (Inr (document [JNull])) = [] \<and>
   companies_of (JInt 5) = None \<and> scan_data no_repr (JInt 5) = Inl TypeError \<and>
   extract_mobile_numbers no_repr (Inr (JInt 5)) = [] \<and>
   companies_of (JDict [(ascii ''items'', JList [])]) = None \<and>
   scan_data no_repr (JDict [(ascii ''items'', JList [])]) = Inr ([], []) \<and>
   extract_mobile_numbers no_repr (Inr (JDict [(ascii ''items'', JList [])])) = []"
proof -
  have a: "scan_data no_repr (document [JNull]) = Inl TypeError"
    by (simp add: eval_extractor)
  have b: "companies_of (JInt 5) = None" by simp
  have c: "scan_data no_repr (JInt 5) = Inl TypeError"
    by (simp add: eval_extractor)
  have d: "companies_of (JDict [(ascii ''items'', JList [])]) = None"
    by (simp add: ascii_def)
  have e: "scan_data no_repr (JDict [(ascii ''items'', JList [])]) = Inr ([], [])"
    by (simp add: eval_extractor)
  from extraction_never_raises [of no_repr TypeError "document [JNull]"]
    extraction_never_raises [of no_repr TypeError "JInt 5"]
    extraction_never_raises [of no_repr TypeError "JDict [(ascii ''items'', JList [])]"]
    a b c d e
  show ?thesis by simp
qed

text \<open>
  Claim C8 says that every record lacking a phone field is skipped and leaves the other
  records' entries unchanged. A record whose \<open>contact_info\<close> is \<open>null\<close> has no phone
  field, but the test \<open>'phone' in company['contact_info']\<close> raises a TypeError on it, and
  the entry of the record before it is lost with the whole result.
\<close>

theorem null_contact_info_aborts:
  "phone_field (JDict [(ascii ''contact_info'', JNull)]) = None \<and>
   extract_mobile_numbers no_repr (Inr (document [company (JInt 1) (ascii ''Acme'') (ascii ''01123456789'')])) =
     [\<lparr>valid_number.name = JStr (ascii ''Acme''), phone = ascii ''01123456789'', ident = JInt 1\<rparr>] \<and>
   extract_mobile_numbers no_repr
     (Inr (document [company (JInt 1) (ascii ''Acme'') (ascii ''01123456789''),
                     JDict [(ascii ''contact_info'', JNull)]])) = []"
  by (simp add: eval_extractor)

text \<open>
  Claim C8, amended. A record that is a mapping with no \<open>contact_info\<close>, or whose
  \<open>contact_info\<close> is a mapping with no \<open>phone\<close>, is skipped entirely: it changes
  neither list, and the extraction of a collection with this record gives what the
  extraction of the collection without it gives.
\<close>

theorem record_lacking_phone_skipped:
  assumes "lacks_phone c"
  shows "process_company r c st = Inr st \<and>
         scan_companies r (xs @ c # ys) st = scan_companies r (xs @ ys) st \<and>
         scan_data r (document (xs @ c # ys)) = scan_data r (document (xs @ ys)) \<and>
         extract_mobile_numbers r (Inr (document (xs @ c # ys))) =
           extract_mobile_numbers r (Inr (document (xs @ ys)))"
proof -
  have p: "process_company r c st' = Inr st'" for st'
    using assms by (rule process_company_lacks_phone)
  have s: "scan_companies r (xs @ c # ys) st' = scan_companies r (xs @ ys) st'" for st'
    by (simp add: scan_companies_append p split: sum.splits)
  have d: "scan_data r (document (xs @ c # ys)) = scan_data r (document (xs @ ys))"
    by (simp only: scan_data_document s)
  show ?thesis
    by (simp add: p s d extract_mobile_numbers_def)
qed

theorem record_lacking_phone_skipped_witness:
  "lacks_phone (JDict [(ascii ''id'', JInt 7)]) \<and>
   lacks_phone (JDict [(ascii ''contact_info'', JDict [(ascii ''email'', JStr (ascii ''a@b''))])]) \<and>
   extract_mobile_numbers no_repr
     (Inr (document ([company (JInt 1) (ascii ''Acme'') (ascii ''01123456789'')] @ JDict [(ascii ''id'', JInt 7)] #
         [company (JInt 4) (ascii ''Delta'') (ascii ''01512345678'')]))) =
     [\<lparr>valid_number.name = JStr (ascii ''Acme''), phone = ascii ''01123456789'', ident = JInt 1\<rparr>,
      \<lparr>valid_number.name = JStr (ascii ''Delta''), phone = ascii ''01512345678'', ident = JInt 4\<rparr>] \<and>
   extract_mobile_numbers no_repr
     (Inr (document ([company (JInt 1) (ascii ''Acme'') (ascii ''01123456789'')] @
         JDict [(ascii ''contact_info'', JDict [(ascii ''email'', JStr (ascii ''a@b''))])] #
         [company (JInt 4) (ascii ''Delta'') (ascii ''01512345678'')]))) =
     [\<lparr>valid_number.name = JStr (ascii ''Acme''), phone = ascii ''01123456789'', ident = JInt 1\<rparr>,
      \<lparr>valid_number.name = JStr (ascii ''Delta''), phone = ascii ''01512345678'', ident = JInt 4\<rparr>]"
proof -
  let ?xs = "[company (JInt 1) (ascii ''Acme'') (ascii ''01123456789'')]"
  let ?ys = "[company (JInt 4) (ascii ''Delta'') (ascii ''01512345678'')]"
  have a: "lacks_phone (JDict [(ascii ''id'', JInt 7)])"
    by (simp add: ascii_def)
  have b: "lacks_phone (JDict [(ascii ''contact_info'', JDict [(ascii ''email'', JStr (ascii ''a@b''))])])"
    by (simp add: ascii_def)
  have c: "extract_mobile_numbers no_repr (Inr (document (?xs @ ?ys))) =
     [\<lparr>valid_number.name = JStr (ascii ''Acme''), phone = ascii ''01123456789'', ident = JInt 1\<rparr>,
      \<lparr>valid_number.name = JStr (ascii ''Delta''), phone = ascii ''01512345678'', ident = JInt 4\<rparr>]"
    by (simp add: eval_extractor)
  from record_lacking_phone_skipped [OF a, of no_repr "([], [])" ?xs ?ys]
    record_lacking_phone_skipped [OF b, of no_repr "([], [])" ?xs ?ys] a b c
  show ?thesis by (simp only: simp_thms)
qed

text \<open>
  Claim C10. The extraction is all or nothing: when the processing of any record of the
  collection raises an exception, as for a record that is a number, the scan ends with an
  exception and the empty list is returned, whatever entries the records before it had
  given.
\<close>

theorem extraction_all_or_nothing:
  assumes "py_getitem data (ascii ''companies'') = Inr (JList cs)"
    and "c \<in> set cs" and "process_company r c st = Inl e"
  shows "(\<exists>e'. scan_data r data = Inl e') \<and> extract_mobile_numbers r (Inr data) = []"
proof -
  from scan_companies_raise [OF assms(2,3), of "([], [])"]
  obtain e' where "scan_companies r cs ([], []) = Inl e'" by blast
  with scan_data_companies [OF assms(1), of r] have "scan_data r data = Inl e'" by simp
  then show ?thesis by (simp add: extract_mobile_numbers_def)
qed

theorem extraction_all_or_nothing_witness:
  "py_getitem (document [company (JInt 1) (ascii ''Acme'') (ascii ''01123456789''), JInt 5]) (ascii ''companies'') =
     Inr (JList [company (JInt 1) (ascii ''Acme'') (ascii ''01123456789''), JInt 5]) \<and>
   JInt 5 \<in> set [company (JInt 1) (ascii ''Acme'') (ascii ''01123456789''), JInt 5] \<and>
   process_company no_repr (JInt 5) ([], []) = Inl TypeError \<and>
   scan_companies no_repr [company (JInt 1) (ascii ''Acme'') (ascii ''01123456789'')] ([], []) =
     Inr ([\<lparr>valid_number.name = JStr (ascii ''Acme''), phone = ascii ''01123456789'',
            ident = JInt 1\<rparr>], []) \<and>
   extract_mobile_numbers no_repr
     (Inr (document [company (JInt 1) (ascii ''Acme'') (ascii ''01123456789''), JInt 5])) = []"
proof -
  let ?cs = "[company (JInt 1) (ascii ''Acme'') (ascii ''01123456789''), JInt 5]"
  have a: "py_getitem (document ?cs) (ascii ''companies'') = Inr (JList ?cs)"
    by (simp add: document_def)
  have b: "JInt 5 \<in> set ?cs" by simp
  have c: "process_company no_repr (JInt 5) ([], []) = Inl TypeError"
    by (simp add: process_company_def has_phone_def)
  have d: "scan_companies no_repr [company (JInt 1) (ascii ''Acme'') (ascii ''01123456789'')] ([], []) =
     Inr ([\<lparr>valid_number.name = JStr (ascii ''Acme''), phone = ascii ''01123456789'',
            ident = JInt 1\<rparr>], [])"
    by (simp add: eval_extractor)
  from extraction_all_or_nothing [OF a b c] a b c d show ?thesis by (simp only: simp_thms)
qed

end
